theory Spec2Isabelle
  imports Complex_Main
begin

section \<open>Python floats\<close>

text \<open>
  The script \<^verbatim>\<open>python-plots/plot.py\<close> computes with Python floats, which are IEEE 754
  doubles. A float is a finite number or one of the three special values; zero has no
  sign here. Every arithmetic operation gives the exact result rounded to the nearest
  double, a tie going to the even significand, and a result too large becomes an
  infinity.
\<close>

datatype pyfloat = Fin real | PInf | NInf | NaN

text \<open>
  A finite double is \<open>m * 2 ^ e\<close> with \<open>\<bar>m\<bar> < 2 ^ 53\<close> and \<open>- 1074 \<le> e \<le> 971\<close>. For a
  real \<open>x\<close>, \<open>ulp_exponent x\<close> is the exponent \<open>e\<close> of the doubles around \<open>x\<close>, and
  \<open>rnd x\<close> the double nearest to \<open>x\<close>; from \<open>2 ^ 1024 - 2 ^ 970\<close> on, half way between
  the largest double and \<open>2 ^ 1024\<close>, the result is infinite.
\<close>

definition round_half_even :: "real \<Rightarrow> int" where
  "round_half_even r =
     (if r - of_int \<lfloor>r\<rfloor> < 1 / 2 then \<lfloor>r\<rfloor>
      else if 1 / 2 < r - of_int \<lfloor>r\<rfloor> then \<lfloor>r\<rfloor> + 1
      else if even \<lfloor>r\<rfloor> then \<lfloor>r\<rfloor> else \<lfloor>r\<rfloor> + 1)"

definition ulp_exponent :: "real \<Rightarrow> int" where
  "ulp_exponent x = max (- 1074) (\<lfloor>log 2 \<bar>x\<bar>\<rfloor> - 52)"

definition rnd :: "real \<Rightarrow> pyfloat" where
  "rnd x =
     (if 2 ^ 1024 - 2 ^ 970 \<le> \<bar>x\<bar> then (if 0 < x then PInf else NInf)
      else Fin (of_int (round_half_even (x / 2 powi ulp_exponent x)) * 2 powi ulp_exponent x))"

fun fadd :: "pyfloat \<Rightarrow> pyfloat \<Rightarrow> pyfloat" where
  "fadd (Fin a) (Fin b) = rnd (a + b)"
| "fadd NaN _ = NaN"
| "fadd _ NaN = NaN"
| "fadd PInf NInf = NaN"
| "fadd NInf PInf = NaN"
| "fadd PInf _ = PInf"
| "fadd _ PInf = PInf"
| "fadd NInf _ = NInf"
| "fadd _ NInf = NInf"

fun fsub :: "pyfloat \<Rightarrow> pyfloat \<Rightarrow> pyfloat" where
  "fsub (Fin a) (Fin b) = rnd (a - b)"
| "fsub NaN _ = NaN"
| "fsub _ NaN = NaN"
| "fsub PInf PInf = NaN"
| "fsub NInf NInf = NaN"
| "fsub PInf _ = PInf"
| "fsub _ NInf = PInf"
| "fsub NInf _ = NInf"
| "fsub _ PInf = NInf"

text \<open>The sign of a product with an infinite factor; zero times infinity is not a number.\<close>

definition signed_inf :: "real \<Rightarrow> pyfloat" where
  "signed_inf a = (if 0 < a then PInf else if a < 0 then NInf else NaN)"

fun fmul :: "pyfloat \<Rightarrow> pyfloat \<Rightarrow> pyfloat" where
  "fmul (Fin a) (Fin b) = rnd (a * b)"
| "fmul NaN _ = NaN"
| "fmul _ NaN = NaN"
| "fmul (Fin a) PInf = signed_inf a"
| "fmul (Fin a) NInf = signed_inf (- a)"
| "fmul PInf (Fin b) = signed_inf b"
| "fmul NInf (Fin b) = signed_inf (- b)"
| "fmul PInf PInf = PInf"
| "fmul NInf NInf = PInf"
| "fmul PInf NInf = NInf"
| "fmul NInf PInf = NInf"

text \<open>Division by the literal \<^verbatim>\<open>2.0\<close>.\<close>

fun fhalf :: "pyfloat \<Rightarrow> pyfloat" where
  "fhalf (Fin a) = rnd (a / 2)"
| "fhalf v = v"

text \<open>The comparisons \<^verbatim>\<open><\<close> and \<^verbatim>\<open>></\<close>: every comparison with NaN is false.\<close>

fun flt :: "pyfloat \<Rightarrow> pyfloat \<Rightarrow> bool" where
  "flt (Fin a) (Fin b) = (a < b)"
| "flt NaN _ = False"
| "flt _ NaN = False"
| "flt PInf _ = False"
| "flt _ NInf = False"
| "flt _ PInf = True"
| "flt NInf _ = True"

definition fgt :: "pyfloat \<Rightarrow> pyfloat \<Rightarrow> bool" where
  "fgt a b = flt b a"

section \<open>Errors and list indexing\<close>

text \<open>
  The exceptions the script can raise: \<^verbatim>\<open>open\<close> on a missing file, \<^verbatim>\<open>row[k]\<close>
  out of range, \<^verbatim>\<open>float\<close> on a field that is no number, and numpy on arrays whose
  shapes do not fit. None is caught, so each ends the run.
\<close>

datatype py_error = OSError | IndexError | ValueError

text \<open>\<^verbatim>\<open>xs[i]\<close>: a negative index counts from the end, an index out of range raises.\<close>

definition index :: "'a list \<Rightarrow> int \<Rightarrow> py_error + 'a" where
  "index xs i =
     (if 0 \<le> i \<and> i < int (length xs) then Inr (xs ! nat i)
      else if i < 0 \<and> - int (length xs) \<le> i then Inr (xs ! nat (int (length xs) + i))
      else Inl IndexError)"

section \<open>The state of the script\<close>

text \<open>
  The module's variables, and the two effects of the script: the lines printed and the
  data handed to \<^verbatim>\<open>ax.plot\<close>. A printed line is its literal text and the float
  printed after it; how the float is rendered is left to Python.
  \<^verbatim>\<open>result\<close> is unbound until the integration step.
\<close>

datatype line = Baseline_is pyfloat | Peak_area pyfloat

record state =
  baseline :: pyfloat
  x_vals :: "pyfloat list"
  y_vals :: "pyfloat list"
  peak_x_vals :: "pyfloat list"
  peak_y_vals :: "pyfloat list"
  result :: "pyfloat option"
  stdout :: "line list"
  plotted :: "(pyfloat list \<times> pyfloat list) list"

definition PEAK_START_TIME :: real where
  "PEAK_START_TIME = 150"

definition PEAK_END_TIME :: real where
  "PEAK_END_TIME = 300"

definition init :: state where
  "init = \<lparr>baseline = PInf, x_vals = [], y_vals = [], peak_x_vals = [], peak_y_vals = [],
            result = None, stdout = [], plotted = []\<rparr>"

section \<open>Load step (lines 28 to 37)\<close>

text \<open>
  \<^verbatim>\<open>csv.reader\<close> yields each row as a list of strings. \<^verbatim>\<open>float\<close> is Python's
  parser, a parameter here: the float a field stands for, which may be infinite or NaN
  (the fields \<^verbatim>\<open>inf\<close> and \<^verbatim>\<open>nan\<close>), and \<open>None\<close> where it raises
  \<^verbatim>\<open>ValueError\<close>.
\<close>

fun read_rows :: "(string \<Rightarrow> pyfloat option) \<Rightarrow> string list list \<Rightarrow> state \<Rightarrow> py_error + state" where
  "read_rows float [] s = Inr s"
| "read_rows float (row # reader) s =
     (case index row 0 of
        Inl e \<Rightarrow> Inl e
      | Inr f0 \<Rightarrow>
          (case float f0 of
             None \<Rightarrow> Inl ValueError
           | Some t \<Rightarrow>
               let TIME = fmul t (Fin 60) in
               (case index row 1 of
                  Inl e \<Rightarrow> Inl e
                | Inr f1 \<Rightarrow>
                    (case float f1 of
                       None \<Rightarrow> Inl ValueError
                     | Some SIGNAL \<Rightarrow>
                         read_rows float reader
                           (s\<lparr>x_vals := x_vals s @ [TIME],
                              y_vals := y_vals s @ [SIGNAL]\<rparr>)))))"

text \<open>\<open>csvfile\<close> is \<open>None\<close> when the file cannot be opened.\<close>

definition read_data :: "(string \<Rightarrow> pyfloat option) \<Rightarrow> string list list option \<Rightarrow> state \<Rightarrow> py_error + state" where
  "read_data float csvfile s =
     (case csvfile of None \<Rightarrow> Inl OSError | Some reader \<Rightarrow> read_rows float reader s)"

section \<open>Windowing and baseline (lines 40 to 54)\<close>

text \<open>
  The loop runs over \<^verbatim>\<open>y_vals\<close> with the counter \<open>i\<close>, which starts at \<open>-1\<close> and is
  incremented first. The window bounds are the module's constants; the loop takes them
  as \<open>lo\<close> and \<open>hi\<close>.
\<close>

fun peak_loop :: "real \<Rightarrow> real \<Rightarrow> pyfloat list \<Rightarrow> int \<Rightarrow> state \<Rightarrow> py_error + state" where
  "peak_loop lo hi [] i s = Inr s"
| "peak_loop lo hi (y_val # rest) i0 s =
     (let i = i0 + 1 in
      case index (x_vals s) i of
        Inl e \<Rightarrow> Inl e
      | Inr x \<Rightarrow>
          if flt x (Fin lo) \<or> fgt x (Fin hi) then peak_loop lo hi rest i s
          else
            (case index (y_vals s) i of
               Inl e \<Rightarrow> Inl e
             | Inr SIGNAL \<Rightarrow>
                 peak_loop lo hi rest i
                   (s\<lparr>peak_x_vals := peak_x_vals s @ [x],
                      baseline := (if fgt (baseline s) SIGNAL then SIGNAL else baseline s),
                      peak_y_vals := peak_y_vals s @ [SIGNAL]\<rparr>)))"

definition derive_peak :: "real \<Rightarrow> real \<Rightarrow> state \<Rightarrow> py_error + state" where
  "derive_peak lo hi s = peak_loop lo hi (y_vals s) (- 1) s"

section \<open>Baseline print and correction (lines 56 to 59)\<close>

definition print_baseline :: "state \<Rightarrow> state" where
  "print_baseline s = s\<lparr>stdout := stdout s @ [Baseline_is (baseline s)]\<rparr>"

definition apply_correction :: "state \<Rightarrow> state" where
  "apply_correction s =
     s\<lparr>peak_y_vals := map (\<lambda>y_val. fsub y_val (baseline s)) (peak_y_vals s)\<rparr>"

section \<open>Integration (lines 62 and 63)\<close>

text \<open>
  \<^verbatim>\<open>scipy.integrate.trapz\<close> is numpy's \<^verbatim>\<open>trapz\<close>, a library function outside
  the repository. It is written here as the library computes it on two one-dimensional
  arrays: \<^verbatim>\<open>d = diff(x)\<close>, then
  \<^verbatim>\<open>(d * (y[1:] + y[:-1]) / 2.0).sum()\<close>, where \<^verbatim>\<open>*\<close> broadcasts an array of
  length one and raises \<^verbatim>\<open>ValueError\<close> on other arrays of different lengths.
\<close>

definition diff :: "pyfloat list \<Rightarrow> pyfloat list" where
  "diff a = map2 fsub (tl a) (butlast a)"

definition broadcast_mul :: "pyfloat list \<Rightarrow> pyfloat list \<Rightarrow> py_error + pyfloat list" where
  "broadcast_mul a b =
     (if length a = length b then Inr (map2 fmul a b)
      else if length a = 1 then Inr (map (fmul (hd a)) b)
      else if length b = 1 then Inr (map (\<lambda>u. fmul u (hd b)) a)
      else Inl ValueError)"

text \<open>
  The sum of a float array is numpy's pairwise summation, whose order of additions
  decides the rounding. Fewer than 8 elements are added one after the other; up to 128
  elements are added into 8 accumulators, the accumulators as a tree, then the rest one
  after the other; a longer array is split at a multiple of 8 near its middle. The
  reduction adds the result to its initial value 0.
\<close>

definition sum_block :: "pyfloat list \<Rightarrow> pyfloat" where
  "sum_block a =
     (let n = length a;
          r = fold (\<lambda>q r. map2 fadd r (take 8 (drop (8 * q) a))) [1..<n div 8] (take 8 a);
          res = fadd (fadd (fadd (r ! 0) (r ! 1)) (fadd (r ! 2) (r ! 3)))
                     (fadd (fadd (r ! 4) (r ! 5)) (fadd (r ! 6) (r ! 7)))
      in foldl fadd res (drop (n - n mod 8) a))"

function pairwise_sum :: "pyfloat list \<Rightarrow> pyfloat" where
  "pairwise_sum a =
     (if length a < 8 then foldl fadd (Fin 0) a
      else if length a \<le> 128 then sum_block a
      else fadd (pairwise_sum (take (length a div 2 - length a div 2 mod 8) a))
                (pairwise_sum (drop (length a div 2 - length a div 2 mod 8) a)))"
  by pat_completeness auto
termination
  by (relation "measure length") (auto simp: not_less)

declare pairwise_sum.simps [simp del]

definition np_sum :: "pyfloat list \<Rightarrow> pyfloat" where
  "np_sum a = fadd (Fin 0) (pairwise_sum a)"

definition trapz :: "pyfloat list \<Rightarrow> pyfloat list \<Rightarrow> py_error + pyfloat" where
  "trapz y x =
     (let d = diff x in
      case broadcast_mul d (map2 fadd (tl y) (butlast y)) of
        Inl e \<Rightarrow> Inl e
      | Inr p \<Rightarrow> Inr (np_sum (map fhalf p)))"

definition calc_area :: "state \<Rightarrow> py_error + state" where
  "calc_area s =
     (case trapz (peak_y_vals s) (peak_x_vals s) of
        Inl e \<Rightarrow> Inl e
      | Inr r \<Rightarrow> Inr (s\<lparr>result := Some r, stdout := stdout s @ [Peak_area r]\<rparr>))"

section \<open>Render step (lines 66 to 71)\<close>

definition plot :: "state \<Rightarrow> state" where
  "plot s = s\<lparr>plotted := plotted s @ [(x_vals s, y_vals s)]\<rparr>"

section \<open>The whole script\<close>

text \<open>
  The statements run in the order of the file; an exception ends the run. \<open>analyse\<close> is
  lines 56 to 63, \<open>process\<close> everything after the load step.
\<close>

definition analyse :: "state \<Rightarrow> py_error + state" where
  "analyse s = calc_area (apply_correction (print_baseline s))"

definition process :: "real \<Rightarrow> real \<Rightarrow> state \<Rightarrow> py_error + state" where
  "process lo hi s0 =
     (case derive_peak lo hi s0 of
        Inl e \<Rightarrow> Inl e
      | Inr s1 \<Rightarrow>
          (case analyse s1 of
             Inl e \<Rightarrow> Inl e
           | Inr s2 \<Rightarrow> Inr (plot s2)))"

definition main :: "(string \<Rightarrow> pyfloat option) \<Rightarrow> real \<Rightarrow> real \<Rightarrow> string list list option \<Rightarrow> py_error + state" where
  "main float lo hi csvfile =
     (case read_data float csvfile init of
        Inl e \<Rightarrow> Inl e
      | Inr s0 \<Rightarrow> process lo hi s0)"

definition script :: "(string \<Rightarrow> pyfloat option) \<Rightarrow> string list list option \<Rightarrow> py_error + state" where
  "script float csvfile = main float PEAK_START_TIME PEAK_END_TIME csvfile"

section \<open>The data model of the specification\<close>

text \<open>
  A sample is a pair of a time in seconds and a signal, both floats, and a series a list
  of samples in file order. \<open>loaded S\<close> is the state of the script when the load step has
  read the series \<open>S\<close>: the two parallel lists hold the times and the signals. Every
  state the load step can leave has this form (\<open>read_data_loaded\<close> below).
\<close>

type_synonym sample = "pyfloat \<times> pyfloat"

definition loaded :: "sample list \<Rightarrow> state" where
  "loaded S = init\<lparr>x_vals := map fst S, y_vals := map snd S\<rparr>"

text \<open>Minutes to seconds: the float product with 60, which rounds and may overflow.\<close>

definition seconds :: "pyfloat \<Rightarrow> pyfloat" where
  "seconds v = (case v of Fin t \<Rightarrow> rnd (t * 60) | _ \<Rightarrow> v)"

text \<open>
  A time lies within the window when it is a number \<open>t\<close> with \<open>lo \<le> t \<le> hi\<close>; an
  infinite time and NaN do not. The Peak Series in the specification's words is the list
  of the samples whose time lies within the window.
\<close>

fun in_window :: "real \<Rightarrow> real \<Rightarrow> pyfloat \<Rightarrow> bool" where
  "in_window lo hi (Fin t) = (lo \<le> t \<and> t \<le> hi)"
| "in_window lo hi v = False"

definition window :: "real \<Rightarrow> real \<Rightarrow> sample list \<Rightarrow> sample list" where
  "window lo hi S = filter (\<lambda>(t, y). in_window lo hi t) S"

text \<open>The order of the floats: NaN is not comparable, the infinities are the ends.\<close>

fun fle :: "pyfloat \<Rightarrow> pyfloat \<Rightarrow> bool" where
  "fle (Fin a) (Fin b) = (a \<le> b)"
| "fle NaN _ = False"
| "fle _ NaN = False"
| "fle NInf _ = True"
| "fle _ PInf = True"
| "fle _ _ = False"

text \<open>
  The trapezoidal rule in the specification's words, in double arithmetic: the term of two
  neighbouring samples \<open>(t\<^bsub>k\<^esub>, y\<^bsub>k\<^esub>)\<close> and \<open>(t\<^bsub>k+1\<^esub>, y\<^bsub>k+1\<^esub>)\<close> is
  \<open>(t\<^bsub>k+1\<^esub> - t\<^bsub>k\<^esub>) * (y\<^bsub>k\<^esub> + y\<^bsub>k+1\<^esub>) / 2\<close>, and the area the sum of the terms for
  \<open>k\<close> from 0 to \<open>N - 2\<close>. \<open>trapezoid\<close> is the same sum in real arithmetic.
\<close>

definition term_fl :: "sample \<Rightarrow> sample \<Rightarrow> pyfloat" where
  "term_fl p q = fhalf (fmul (fsub (fst q) (fst p)) (fadd (snd p) (snd q)))"

definition trapezoid_fl :: "sample list \<Rightarrow> pyfloat" where
  "trapezoid_fl C = np_sum (map (\<lambda>k. term_fl (C ! k) (C ! (k + 1))) [0..<length C - 1])"


text \<open>
  What the loop of lines 40 to 54 computes, as functions of the series: the samples that
  its test does not skip, and the running minimum it keeps in \<^verbatim>\<open>baseline\<close>.
\<close>

definition kept :: "real \<Rightarrow> real \<Rightarrow> sample list \<Rightarrow> sample list" where
  "kept lo hi S = filter (\<lambda>(t, y). \<not> (flt t (Fin lo) \<or> fgt t (Fin hi))) S"

fun running_min :: "pyfloat \<Rightarrow> pyfloat list \<Rightarrow> pyfloat" where
  "running_min b [] = b"
| "running_min b (y # ys) = running_min (if fgt b y then y else b) ys"

section \<open>Input files of the examples\<close>

text \<open>
  The rows \<^verbatim>\<open>(0,5.0)\<close>, \<^verbatim>\<open>(3,10.0)\<close>, \<^verbatim>\<open>(6,8.0)\<close> of the specification's
  fixture as \<^verbatim>\<open>csv.reader\<close> yields them, and the values of \<^verbatim>\<open>float\<close> on the
  fields of the examples below; \<^verbatim>\<open>8.98846567431158e+307\<close> is how Python writes
  \<open>2 ^ 1023\<close>. \<open>fixture_float\<close> says nothing about other strings.
\<close>

definition fixture_rows :: "string list list" where
  "fixture_rows = [[''0'', ''5.0''], [''3'', ''10.0''], [''6'', ''8.0'']]"

definition fixture_float :: "string \<Rightarrow> pyfloat option" where
  "fixture_float f =
     (if f = ''0'' then Some (Fin 0) else if f = ''3'' then Some (Fin 3)
      else if f = ''6'' then Some (Fin 6) else if f = ''5.0'' then Some (Fin 5)
      else if f = ''10.0'' then Some (Fin 10) else if f = ''8.0'' then Some (Fin 8)
      else if f = ''nan'' then Some NaN else if f = ''-inf'' then Some NInf
      else if f = ''8.98846567431158e+307'' then Some (Fin (2 ^ 1023))
      else None)"

section \<open>Rounding\<close>

lemma round_half_even_of_int [simp]: "round_half_even (of_int k) = k"
  by (simp add: round_half_even_def)


lemma rnd_0 [simp]: "rnd 0 = Fin 0"
  using round_half_even_of_int[of 0] by (simp add: rnd_def del: round_half_even_of_int)


lemma ulp_exponent_le:
  assumes "m \<noteq> 0" and "\<bar>m\<bar> < 2 ^ 53"
  shows "ulp_exponent (of_int m * 2 ^ k) \<le> int k"
proof -
  define x where "x = real_of_int m * 2 ^ k"
  have pos: "0 < \<bar>x\<bar>" using assms(1) by (simp add: x_def)
  have "real_of_int \<bar>m\<bar> < real_of_int (2 ^ 53)"
    using assms(2) by (simp only: of_int_less_iff)
  then have "\<bar>real_of_int m\<bar> < 2 ^ 53" by simp
  then have "\<bar>real_of_int m\<bar> * 2 ^ k < (2 ^ 53) * 2 ^ k"
    by (intro mult_strict_right_mono) simp_all
  moreover have "\<bar>(2::real) ^ k\<bar> = 2 ^ k" by simp
  ultimately have "\<bar>x\<bar> < 2 ^ (53 + k)"
    by (simp only: x_def abs_mult power_add)
  also have "(2::real) ^ (53 + k) = 2 powr real (53 + k)"
    by (simp only: powr_realpow[symmetric, OF zero_less_numeral])
  finally have "log 2 \<bar>x\<bar> < real (53 + k)"
    using pos by (simp only: log_less_iff[OF _ pos] one_less_numeral_iff semiring_norm)
  then have "\<lfloor>log 2 \<bar>x\<bar>\<rfloor> < int (53 + k)"
    by (simp add: floor_less_iff)
  then show ?thesis unfolding x_def[symmetric] by (simp add: ulp_exponent_def)
qed

text \<open>A double is its own rounding.\<close>

lemma rnd_exact:
  assumes m: "\<bar>m\<bar> < 2 ^ 53" and k: "k \<le> 971"
  shows "rnd (of_int m * 2 ^ k) = Fin (of_int m * 2 ^ k)"
proof (cases "m = 0")
  case True
  then show ?thesis by simp
next
  case False
  define x where "x = real_of_int m * 2 ^ k"
  define e where "e = ulp_exponent x"
  have e: "e \<le> int k"
    using ulp_exponent_le[OF False m, of k] by (simp add: e_def x_def)
  define j where "j = nat (int k - e)"
  have kj: "int k = e + int j" using e by (simp add: j_def)
  have "(2::real) powi int k = 2 powi e * 2 powi int j"
    unfolding kj by (simp add: power_int_add)
  then have pk: "(2::real) ^ k = 2 powi e * 2 ^ j" by simp
  have q: "x / 2 powi e = of_int (m * 2 ^ j)"
    by (simp add: x_def pk)
  have val: "of_int (round_half_even (x / 2 powi e)) * 2 powi e = x"
    unfolding q round_half_even_of_int by (simp add: x_def pk)
  have small: "\<not> 2 ^ 1024 - 2 ^ 970 \<le> \<bar>x\<bar>"
  proof -
    have "\<bar>m\<bar> \<le> 2 ^ 53 - 1" using m by simp
    then have "real_of_int \<bar>m\<bar> \<le> real_of_int (2 ^ 53 - 1)"
      by (simp only: of_int_le_iff)
    then have "\<bar>real_of_int m\<bar> \<le> 2 ^ 53 - 1" by simp
    moreover have "(2::real) ^ k \<le> 2 ^ 971" using k by (intro power_increasing) simp_all
    ultimately have "\<bar>real_of_int m\<bar> * 2 ^ k \<le> (2 ^ 53 - 1) * 2 ^ 971"
      by (intro mult_mono) simp_all
    moreover have "((2::real) ^ 53 - 1) * 2 ^ 971 < 2 ^ 1024 - 2 ^ 970" by simp
    moreover have "\<bar>(2::real) ^ k\<bar> = 2 ^ k" by simp
    ultimately show ?thesis unfolding x_def abs_mult by linarith
  qed
  have "rnd x = Fin x"
    unfolding rnd_def e_def[symmetric] using small val by (simp only: if_False)
  then show ?thesis by (simp only: x_def)
qed

lemma rnd_int: "x \<in> \<int> \<Longrightarrow> \<bar>x\<bar> < 2 ^ 53 \<Longrightarrow> rnd x = Fin x"
proof -
  assume "x \<in> \<int>" and b: "\<bar>x\<bar> < 2 ^ 53"
  then obtain m where x: "x = of_int m" by (auto elim: Ints_cases)
  have "real_of_int \<bar>m\<bar> < real_of_int (2 ^ 53)" using b x by simp
  then have "\<bar>m\<bar> < 2 ^ 53" by (simp only: of_int_less_iff)
  from rnd_exact[OF this, of 0] show ?thesis by (simp add: x)
qed



section \<open>Comparisons\<close>

lemma fgt_simps [simp]:
  "fgt (Fin a) (Fin b) = (b < a)" "fgt PInf (Fin b)" "\<not> fgt u NaN" "\<not> fgt NaN v"
  "\<not> fgt u PInf" "\<not> fgt NInf v"
  by (cases u; cases v; simp add: fgt_def)+

lemma fle_refl: "a \<noteq> NaN \<Longrightarrow> fle a a"
  by (cases a) simp_all

lemma fle_trans: "fle a b \<Longrightarrow> fle b c \<Longrightarrow> fle a c"
  by (cases a; cases b; cases c) simp_all

lemma fgt_fle: "fgt b y \<Longrightarrow> fle y b"
  by (cases b; cases y) (simp_all add: fgt_def)

lemma not_fgt_fle: "\<not> fgt b y \<Longrightarrow> b \<noteq> NaN \<Longrightarrow> y \<noteq> NaN \<Longrightarrow> fle b y"
  by (cases b; cases y) (simp_all add: fgt_def)

lemma in_window_iff: "t \<noteq> NaN \<Longrightarrow> in_window lo hi t \<longleftrightarrow> \<not> (flt t (Fin lo) \<or> fgt t (Fin hi))"
  by (cases t) (auto simp: fgt_def)

lemma kept_window: "\<forall>(t, y) \<in> set S. t \<noteq> NaN \<Longrightarrow> kept lo hi S = window lo hi S"
  unfolding kept_def window_def by (rule filter_cong) (auto simp: in_window_iff)

section \<open>The running minimum\<close>

lemma running_min_lower:
  assumes "b \<noteq> NaN" and "NaN \<notin> set ys"
  shows "running_min b ys \<in> insert b (set ys) \<and> fle (running_min b ys) b \<and>
         (\<forall>y \<in> set ys. fle (running_min b ys) y)"
  using assms
proof (induction ys arbitrary: b)
  case Nil
  then show ?case by (simp add: fle_refl)
next
  case (Cons y ys)
  let ?b = "if fgt b y then y else b"
  let ?r = "running_min ?b ys"
  have y: "y \<noteq> NaN" and ys: "NaN \<notin> set ys" using Cons.prems(2) by auto
  have b': "?b \<noteq> NaN" using Cons.prems(1) y by simp
  from Cons.IH[OF b' ys] have
    mem: "?r \<in> insert ?b (set ys)" and le: "fle ?r ?b" and all: "\<forall>y' \<in> set ys. fle ?r y'"
    by blast+
  have bb: "fle ?b b" using fgt_fle[of b y] fle_refl[OF Cons.prems(1)] by simp
  have by': "fle ?b y" using not_fgt_fle[OF _ Cons.prems(1) y] fle_refl[OF y] by simp
  have "?r \<in> insert b (set (y # ys))" using mem by auto
  moreover have "fle ?r b" using fle_trans[OF le bb] .
  moreover have "fle ?r y" using fle_trans[OF le by'] .
  ultimately show ?case using all by simp
qed

lemma running_min_PInf:
  assumes "ys \<noteq> []" and "NaN \<notin> set ys"
  shows "running_min PInf ys \<in> set ys \<and> (\<forall>y \<in> set ys. fle (running_min PInf ys) y)"
proof -
  from running_min_lower[of PInf ys] assms(2) have
    mem: "running_min PInf ys \<in> insert PInf (set ys)" and
    all: "\<forall>y \<in> set ys. fle (running_min PInf ys) y"
    by simp_all
  have "running_min PInf ys \<in> set ys"
  proof (cases "running_min PInf ys \<in> set ys")
    case True
    then show ?thesis .
  next
    case False
    with mem have p: "running_min PInf ys = PInf" by simp
    from assms(1) obtain y where y: "y \<in> set ys" by (cases ys) auto
    with all p have "fle PInf y" by auto
    moreover have "y \<noteq> NaN" using y assms(2) by auto
    ultimately have "y = PInf" by (cases y) simp_all
    with y p show ?thesis by simp
  qed
  with all show ?thesis by simp
qed



section \<open>The windowing loop on a loaded series\<close>

lemma index_nth: "k < length xs \<Longrightarrow> index xs (int k) = Inr (xs ! k)"
  by (simp add: index_def)

lemma peak_loop_series:
  assumes "x_vals s = map fst S" and "y_vals s = map snd S"
    and "int k = i + 1" and "k \<le> length S" and "rest = map snd (drop k S)"
  shows "peak_loop lo hi rest i s =
    Inr (s\<lparr>peak_x_vals := peak_x_vals s @ map fst (kept lo hi (drop k S)),
           baseline := running_min (baseline s) (map snd (kept lo hi (drop k S))),
           peak_y_vals := peak_y_vals s @ map snd (kept lo hi (drop k S))\<rparr>)"
  using assms
proof (induction rest arbitrary: k i s)
  case Nil
  then have "drop k S = []" by simp
  then show ?case by (simp add: kept_def)
next
  case (Cons y_val rest)
  note xs = \<open>x_vals s = map fst S\<close> and ys = \<open>y_vals s = map snd S\<close>
    and ki = \<open>int k = i + 1\<close>
  have k: "k < length S"
  proof (rule ccontr)
    assume "\<not> k < length S"
    then have "drop k S = []" by simp
    with Cons.prems(5) show False by simp
  qed
  obtain t y where ty: "S ! k = (t, y)" by (cases "S ! k")
  have dr: "drop k S = (t, y) # drop (Suc k) S"
    using k Cons_nth_drop_Suc[of k S] ty by simp
  with Cons.prems(5) have rest: "rest = map snd (drop (Suc k) S)" by simp
  have ki': "int (Suc k) = (i + 1) + 1" using ki by simp
  have ix: "index (x_vals s) (i + 1) = Inr t"
    using index_nth[of k "x_vals s"] k ki ty by (simp add: xs)
  have iy: "index (y_vals s) (i + 1) = Inr y"
    using index_nth[of k "y_vals s"] k ki ty by (simp add: ys)
  let ?K = "kept lo hi (drop (Suc k) S)"
  show ?case
  proof (cases "flt t (Fin lo) \<or> fgt t (Fin hi)")
    case True
    have "peak_loop lo hi (y_val # rest) i s = peak_loop lo hi rest (i + 1) s"
      using True by (auto simp: ix)
    also have "\<dots> = Inr (s\<lparr>peak_x_vals := peak_x_vals s @ map fst ?K,
           baseline := running_min (baseline s) (map snd ?K),
           peak_y_vals := peak_y_vals s @ map snd ?K\<rparr>)"
      using xs ys ki' Suc_leI[OF k] rest by (rule Cons.IH)
    also have "?K = kept lo hi (drop k S)"
      using True by (auto simp: dr kept_def)
    finally show ?thesis .
  next
    case False
    let ?s = "s\<lparr>peak_x_vals := peak_x_vals s @ [t],
                 baseline := (if fgt (baseline s) y then y else baseline s),
                 peak_y_vals := peak_y_vals s @ [y]\<rparr>"
    have K: "kept lo hi (drop k S) = (t, y) # ?K"
      using False by (auto simp: dr kept_def)
    have "peak_loop lo hi (y_val # rest) i s = peak_loop lo hi rest (i + 1) ?s"
      using False by (auto simp: ix iy)
    also have "\<dots> = Inr (?s\<lparr>peak_x_vals := peak_x_vals ?s @ map fst ?K,
           baseline := running_min (baseline ?s) (map snd ?K),
           peak_y_vals := peak_y_vals ?s @ map snd ?K\<rparr>)"
    proof (rule Cons.IH)
      show "x_vals ?s = map fst S" by (simp add: xs)
      show "y_vals ?s = map snd S" by (simp add: ys)
    qed (use ki' Suc_leI[OF k] rest in auto)
    finally show ?thesis by (simp add: K)
  qed
qed

lemma derive_peak_loaded:
  "derive_peak lo hi (loaded S) =
     Inr ((loaded S)\<lparr>peak_x_vals := map fst (kept lo hi S),
                     baseline := running_min PInf (map snd (kept lo hi S)),
                     peak_y_vals := map snd (kept lo hi S)\<rparr>)"
proof -
  have "peak_loop lo hi (map snd (drop 0 S)) (- 1) (loaded S) =
      Inr ((loaded S)\<lparr>peak_x_vals := peak_x_vals (loaded S) @ map fst (kept lo hi (drop 0 S)),
             baseline := running_min (baseline (loaded S)) (map snd (kept lo hi (drop 0 S))),
             peak_y_vals := peak_y_vals (loaded S) @ map snd (kept lo hi (drop 0 S))\<rparr>)"
    by (rule peak_loop_series) (simp_all add: loaded_def init_def)
  then show ?thesis
    by (simp add: derive_peak_def) (simp add: loaded_def init_def)
qed

section \<open>The load step\<close>

lemma index_0: "xs \<noteq> [] \<Longrightarrow> index xs 0 = Inr (xs ! 0)"
  by (simp add: index_def)

lemma index_1: "2 \<le> length xs \<Longrightarrow> index xs 1 = Inr (xs ! 1)"
  by (simp add: index_def)

text \<open>The product of a float and 60: an infinity and NaN stay what they are.\<close>

lemma fmul_60: "fmul v (Fin 60) = (case v of Fin t \<Rightarrow> rnd (t * 60) | _ \<Rightarrow> v)"
  by (cases v) (simp_all add: signed_inf_def)

lemma read_rows_wellformed:
  assumes "\<forall>row \<in> set reader. \<exists>t y. 2 \<le> length row \<and> float (row ! 0) = Some t \<and> float (row ! 1) = Some y"
  shows "read_rows float reader s =
     Inr (s\<lparr>x_vals := x_vals s @ map (\<lambda>row. fmul (the (float (row ! 0))) (Fin 60)) reader,
            y_vals := y_vals s @ map (\<lambda>row. the (float (row ! 1))) reader\<rparr>)"
  using assms
proof (induction reader arbitrary: s)
  case Nil
  show ?case by simp
next
  case (Cons row reader)
  from Cons.prems obtain t y where row: "2 \<le> length row" "float (row ! 0) = Some t" "float (row ! 1) = Some y"
    by auto
  have ne: "row \<noteq> []" using row(1) by auto
  have rest: "\<forall>row \<in> set reader. \<exists>t y. 2 \<le> length row \<and> float (row ! 0) = Some t \<and> float (row ! 1) = Some y"
    using Cons.prems by simp
  show ?case
    using row(2,3) by (simp add: index_0[OF ne] index_1[OF row(1)] Cons.IH[OF rest])
qed

text \<open>Conversely, a load step that ends has read only rows of two fields that parse.\<close>

lemma read_rows_raises:
  "read_rows float reader s = Inr s' \<Longrightarrow>
     \<forall>row \<in> set reader. \<exists>t y. 2 \<le> length row \<and> float (row ! 0) = Some t \<and> float (row ! 1) = Some y"
proof (induction reader arbitrary: s)
  case Nil
  show ?case by simp
next
  case (Cons row reader)
  from Cons.prems obtain f0 t f1 y where
    f0: "index row 0 = Inr f0" and t: "float f0 = Some t" and
    f1: "index row 1 = Inr f1" and y: "float f1 = Some y" and
    rest: "read_rows float reader
        (s\<lparr>x_vals := x_vals s @ [fmul t (Fin 60)], y_vals := y_vals s @ [y]\<rparr>) = Inr s'"
    by (auto split: sum.splits option.splits)
  from f1 have len: "2 \<le> length row"
    by (auto simp: index_def split: if_splits)
  with f0 f1 have "f0 = row ! 0" "f1 = row ! 1"
    by (auto simp: index_def split: if_splits)
  with t y len have "\<exists>t y. 2 \<le> length row \<and> float (row ! 0) = Some t \<and> float (row ! 1) = Some y"
    by auto
  with Cons.IH[OF rest] show ?case by simp
qed

lemma read_rows_series:
  "read_rows float reader s = Inr s' \<Longrightarrow>
     \<exists>S. s' = s\<lparr>x_vals := x_vals s @ map fst S, y_vals := y_vals s @ map snd S\<rparr>"
proof (induction reader arbitrary: s)
  case Nil
  then have "s' = s\<lparr>x_vals := x_vals s @ map fst ([] :: sample list),
                     y_vals := y_vals s @ map snd ([] :: sample list)\<rparr>"
    by simp
  then show ?case by blast
next
  case (Cons row reader)
  let ?s = "\<lambda>t y. s\<lparr>x_vals := x_vals s @ [t], y_vals := y_vals s @ [y]\<rparr>"
  from Cons.prems obtain t y where "read_rows float reader (?s t y) = Inr s'"
    by (auto split: sum.splits option.splits)
  from Cons.IH[OF this] obtain S :: "sample list" where
    "s' = (?s t y)\<lparr>x_vals := x_vals (?s t y) @ map fst S,
                    y_vals := y_vals (?s t y) @ map snd S\<rparr>"
    by blast
  then have "s' = s\<lparr>x_vals := x_vals s @ map fst ((t, y) # S),
            y_vals := y_vals s @ map snd ((t, y) # S)\<rparr>"
    by simp
  then show ?case by blast
qed

text \<open>Every state the load step can leave is \<open>loaded S\<close> for a series \<open>S\<close>.\<close>

lemma read_data_loaded:
  "read_data float csvfile init = Inr s0 \<Longrightarrow> \<exists>S. s0 = loaded S"
  using read_rows_series[of float _ init s0]
  by (auto simp: read_data_def loaded_def init_def split: option.splits)

section \<open>The trapezoidal rule\<close>

lemma fadd_commute: "fadd u v = fadd v u"
  by (cases u; cases v) (simp_all add: add.commute)

lemma trapz_series: "trapz (map snd C) (map fst C) = Inr (trapezoid_fl C)"
proof -
  let ?n = "length C - 1"
  have d: "diff (map fst C) = map (\<lambda>k. fsub (fst (C ! (k + 1))) (fst (C ! k))) [0..<?n]"
    by (rule nth_equalityI) (simp_all add: diff_def nth_tl nth_butlast)
  have p: "map2 fadd (tl (map snd C)) (butlast (map snd C)) =
      map (\<lambda>k. fadd (snd (C ! k)) (snd (C ! (k + 1)))) [0..<?n]"
    by (rule nth_equalityI) (simp_all add: nth_tl nth_butlast fadd_commute)
  have "broadcast_mul (diff (map fst C)) (map2 fadd (tl (map snd C)) (butlast (map snd C))) =
      Inr (map (\<lambda>k. fmul (fsub (fst (C ! (k + 1))) (fst (C ! k)))
                         (fadd (snd (C ! k)) (snd (C ! (k + 1))))) [0..<?n])"
    unfolding d p by (auto simp: broadcast_mul_def intro!: nth_equalityI)
  then show ?thesis
    by (simp add: trapz_def trapezoid_fl_def term_fl_def comp_def)
qed

lemma calc_area_series:
  assumes "peak_x_vals s = map fst C" and "peak_y_vals s = map snd C"
  shows "calc_area s =
     Inr (s\<lparr>result := Some (trapezoid_fl C), stdout := stdout s @ [Peak_area (trapezoid_fl C)]\<rparr>)"
  by (simp add: calc_area_def assms trapz_series)

text \<open>Fewer than 8 terms are added from the left, starting from 0.\<close>

lemma np_sum_short: "length a < 8 \<Longrightarrow> np_sum a = fadd (Fin 0) (foldl fadd (Fin 0) a)"
  by (simp add: np_sum_def pairwise_sum.simps)

lemma trapezoid_fl_empty: "length C \<le> 1 \<Longrightarrow> trapezoid_fl C = Fin 0"
  by (simp add: trapezoid_fl_def np_sum_short)

section \<open>What the steps leave unchanged\<close>

lemma peak_loop_frame:
  "peak_loop lo hi rest i s = Inr s' \<Longrightarrow>
     x_vals s' = x_vals s \<and> y_vals s' = y_vals s \<and> plotted s' = plotted s \<and>
     stdout s' = stdout s \<and> result s' = result s"
proof (induction rest arbitrary: i s)
  case Nil
  then show ?case by simp
next
  case (Cons y_val rest)
  show ?case
  proof (cases "index (x_vals s) (i + 1)")
    case (Inl e)
    with Cons.prems show ?thesis by simp
  next
    case (Inr x)
    show ?thesis
    proof (cases "flt x (Fin lo) \<or> fgt x (Fin hi)")
      case True
      with Cons.prems Inr have "peak_loop lo hi rest (i + 1) s = Inr s'" by auto
      from Cons.IH[OF this] show ?thesis .
    next
      case False
      with Cons.prems Inr obtain SIGNAL where
        "peak_loop lo hi rest (i + 1)
           (s\<lparr>peak_x_vals := peak_x_vals s @ [x],
              baseline := (if fgt (baseline s) SIGNAL then SIGNAL else baseline s),
              peak_y_vals := peak_y_vals s @ [SIGNAL]\<rparr>) = Inr s'"
        by (auto simp: Let_def split: sum.splits)
      from Cons.IH[OF this] show ?thesis by simp
    qed
  qed
qed

lemma calc_area_frame:
  "calc_area s = Inr s' \<Longrightarrow>
     x_vals s' = x_vals s \<and> y_vals s' = y_vals s \<and> plotted s' = plotted s"
  by (auto simp: calc_area_def split: sum.splits)

section \<open>The run after the load step\<close>

text \<open>
  On every loaded series the run ends: the two peak lists have one length, so numpy
  raises nothing.
\<close>

lemma process_loaded:
  "process lo hi (loaded S) =
     Inr ((loaded S)\<lparr>baseline := running_min PInf (map snd (kept lo hi S)),
            peak_x_vals := map fst (kept lo hi S),
            peak_y_vals := map (\<lambda>(t, y). fsub y (running_min PInf (map snd (kept lo hi S)))) (kept lo hi S),
            result := Some (trapezoid_fl
              (map (\<lambda>(t, y). (t, fsub y (running_min PInf (map snd (kept lo hi S))))) (kept lo hi S))),
            stdout := [Baseline_is (running_min PInf (map snd (kept lo hi S))),
                       Peak_area (trapezoid_fl
              (map (\<lambda>(t, y). (t, fsub y (running_min PInf (map snd (kept lo hi S))))) (kept lo hi S)))],
            plotted := [(map fst S, map snd S)]\<rparr>)"
proof -
  let ?K = "kept lo hi S"
  let ?m = "running_min PInf (map snd ?K)"
  let ?C = "map (\<lambda>(t, y). (t, fsub y ?m)) ?K"
  let ?s1 = "(loaded S)\<lparr>peak_x_vals := map fst ?K, baseline := ?m, peak_y_vals := map snd ?K\<rparr>"
  let ?s = "(loaded S)\<lparr>peak_x_vals := map fst ?C, baseline := ?m,
              peak_y_vals := map snd ?C, stdout := [Baseline_is ?m]\<rparr>"
  let ?s2 = "?s\<lparr>result := Some (trapezoid_fl ?C),
               stdout := stdout ?s @ [Peak_area (trapezoid_fl ?C)]\<rparr>"
  have px: "map fst ?C = map fst ?K"
    by (simp add: comp_def case_prod_beta)
  have py: "map snd ?C = map (\<lambda>(t, y). fsub y ?m) ?K"
    by (simp add: comp_def case_prod_beta)
  have corr: "apply_correction (print_baseline ?s1) = ?s"
    by (simp add: apply_correction_def print_baseline_def loaded_def init_def comp_def
        case_prod_beta)
  have area: "calc_area ?s = Inr ?s2"
    by (rule calc_area_series) simp_all
  have "process lo hi (loaded S) = Inr (plot ?s2)"
    by (simp only: process_def derive_peak_loaded analyse_def corr area sum.case)
  also have "plot ?s2 = (loaded S)\<lparr>baseline := ?m,
            peak_x_vals := map fst ?K,
            peak_y_vals := map (\<lambda>(t, y). fsub y ?m) ?K,
            result := Some (trapezoid_fl ?C),
            stdout := [Baseline_is ?m, Peak_area (trapezoid_fl ?C)],
            plotted := [(map fst S, map snd S)]\<rparr>"
    unfolding px py by (simp add: plot_def loaded_def init_def)
  finally show ?thesis .
qed

lemma process_loaded_empty:
  assumes "kept lo hi S = []"
  shows "process lo hi (loaded S) =
     Inr ((loaded S)\<lparr>result := Some (Fin 0),
                     stdout := [Baseline_is PInf, Peak_area (Fin 0)],
                     plotted := [(map fst S, map snd S)]\<rparr>)"
  unfolding process_loaded assms
  by (simp add: trapezoid_fl_empty) (simp add: loaded_def init_def)

section \<open>The claims\<close>

text \<open>
  Claim C1, as amended. If no sample of the series has a time that is NaN or lies within
  the window, windowing yields an empty Peak Series, and the script does not fail: it has
  no \<^verbatim>\<open>EmptyWindowError\<close> and runs on through the baseline and integration steps to
  its end.
\<close>

theorem empty_window_no_error:
  assumes "\<forall>(t, y) \<in> set S. t \<noteq> NaN \<and> \<not> in_window lo hi t"
  shows "(\<exists>s1. derive_peak lo hi (loaded S) = Inr s1 \<and> peak_x_vals s1 = [] \<and> peak_y_vals s1 = []) \<and>
         (\<exists>s. process lo hi (loaded S) = Inr s)"
proof -
  have "\<forall>(t, y) \<in> set S. t \<noteq> NaN" using assms by auto
  then have "kept lo hi S = window lo hi S" by (rule kept_window)
  also have "\<dots> = []" using assms by (auto simp: window_def filter_empty_conv)
  finally have k: "kept lo hi S = []" .
  show ?thesis
    by (simp add: derive_peak_loaded process_loaded k)
qed

theorem empty_window_no_error_witness:
  "(\<exists>s1. derive_peak 150 300 (loaded [(Fin 0, Fin 5), (Fin 360, Fin 8), (PInf, Fin 1)]) = Inr s1 \<and>
      peak_x_vals s1 = [] \<and> peak_y_vals s1 = []) \<and>
   (\<exists>s. process 150 300 (loaded [(Fin 0, Fin 5), (Fin 360, Fin 8), (PInf, Fin 1)]) = Inr s)"
  using empty_window_no_error[of "[(Fin 0, Fin 5), (Fin 360, Fin 8), (PInf, Fin 1)]" 150 300] by simp

text \<open>
  Claim C1 as stated fails twice. On a file whose two samples, at 0 s and 360 s, lie
  outside the window of 150 s to 300 s, the script ends without an error, having printed
  the baseline \<open>inf\<close> and the area 0. And a sample whose time is NaN does not lie within
  the window, yet the loop keeps it: the Peak Series is not empty.
\<close>

theorem empty_window_counterexample:
  "window PEAK_START_TIME PEAK_END_TIME [(Fin 0, Fin 5), (Fin 360, Fin 8)] = [] \<and>
   script fixture_float (Some [[''0'', ''5.0''], [''6'', ''8.0'']]) =
     Inr \<lparr>baseline = PInf, x_vals = [Fin 0, Fin 360], y_vals = [Fin 5, Fin 8],
          peak_x_vals = [], peak_y_vals = [], result = Some (Fin 0),
          stdout = [Baseline_is PInf, Peak_area (Fin 0)],
          plotted = [([Fin 0, Fin 360], [Fin 5, Fin 8])]\<rparr> \<and>
   window PEAK_START_TIME PEAK_END_TIME [(NaN, Fin 5)] = [] \<and>
   derive_peak PEAK_START_TIME PEAK_END_TIME (loaded [(NaN, Fin 5)]) =
     Inr ((loaded [(NaN, Fin 5)])\<lparr>peak_x_vals := [NaN], baseline := Fin 5, peak_y_vals := [Fin 5]\<rparr>)"
proof -
  have rd: "read_data fixture_float (Some [[''0'', ''5.0''], [''6'', ''8.0'']]) init =
      Inr (loaded [(Fin 0, Fin 5), (Fin 360, Fin 8)])"
    by (simp add: read_data_def index_def fixture_float_def loaded_def init_def rnd_int)
  have k: "kept PEAK_START_TIME PEAK_END_TIME [(Fin 0, Fin 5), (Fin 360, Fin 8)] = []"
    by (simp add: kept_def PEAK_START_TIME_def PEAK_END_TIME_def fgt_def)
  have a: "script fixture_float (Some [[''0'', ''5.0''], [''6'', ''8.0'']]) =
     Inr \<lparr>baseline = PInf, x_vals = [Fin 0, Fin 360], y_vals = [Fin 5, Fin 8],
          peak_x_vals = [], peak_y_vals = [], result = Some (Fin 0),
          stdout = [Baseline_is PInf, Peak_area (Fin 0)],
          plotted = [([Fin 0, Fin 360], [Fin 5, Fin 8])]\<rparr>"
    by (simp add: script_def main_def rd process_loaded_empty[OF k])
      (simp add: loaded_def init_def)
  have b: "derive_peak PEAK_START_TIME PEAK_END_TIME (loaded [(NaN, Fin 5)]) =
     Inr ((loaded [(NaN, Fin 5)])\<lparr>peak_x_vals := [NaN], baseline := Fin 5, peak_y_vals := [Fin 5]\<rparr>)"
    by (simp add: derive_peak_loaded kept_def)
  show ?thesis
    using a b by (simp add: window_def PEAK_START_TIME_def PEAK_END_TIME_def)
qed




text \<open>
  Claim C3. For every input row, the load step stores the first parsed float multiplied
  by 60 as the time and the second parsed float as the signal, in the order of the rows.
  The product is the float product: rounded to a double, infinite when it overflows, and
  an infinite or NaN field stays what it is. The hypothesis is that every row has two
  fields that \<^verbatim>\<open>float\<close> parses; on any other row the script raises
  (\<open>read_rows_raises\<close>).
\<close>

theorem load_step:
  assumes "\<forall>row \<in> set reader. \<exists>t y. 2 \<le> length row \<and> float (row ! 0) = Some t \<and> float (row ! 1) = Some y"
  shows "read_data float (Some reader) init =
     Inr (loaded (map (\<lambda>row. (seconds (the (float (row ! 0))), the (float (row ! 1)))) reader))"
  using read_rows_wellformed[OF assms, of init]
  by (simp add: read_data_def loaded_def init_def comp_def fmul_60 seconds_def)

theorem load_step_witness:
  "read_data fixture_float
     (Some (fixture_rows @ [[''nan'', ''-inf''], [''8.98846567431158e+307'', ''5.0'']])) init =
     Inr (loaded [(Fin 0, Fin 5), (Fin 180, Fin 10), (Fin 360, Fin 8), (NaN, NInf), (PInf, Fin 5)])"
proof -
  have "rnd (2 ^ 1023 * 60) = PInf" by (simp add: rnd_def)
  then show ?thesis
    using load_step[of "fixture_rows @ [[''nan'', ''-inf''], [''8.98846567431158e+307'', ''5.0'']]"
        fixture_float]
    by (simp add: fixture_rows_def fixture_float_def seconds_def rnd_int)
qed

text \<open>
  Claim C4, as amended. For every series in which no time is NaN, and every non-empty
  Peak Series of it in which no signal is NaN, the baseline is the minimum signal over the
  samples in the window, not over the full series, and it is printed as
  \<^verbatim>\<open>Baseline is <value>\<close>.
\<close>

theorem baseline_is_window_minimum:
  assumes "\<forall>(t, y) \<in> set S. t \<noteq> NaN" and "window lo hi S \<noteq> []"
    and "\<forall>(t, y) \<in> set (window lo hi S). y \<noteq> NaN"
  shows "\<exists>s1. derive_peak lo hi (loaded S) = Inr s1 \<and>
           baseline s1 \<in> snd ` set (window lo hi S) \<and>
           (\<forall>y \<in> snd ` set (window lo hi S). fle (baseline s1) y) \<and>
           stdout (print_baseline s1) = [Baseline_is (baseline s1)]"
proof -
  have k: "kept lo hi S = window lo hi S" using assms(1) by (rule kept_window)
  have "map snd (window lo hi S) \<noteq> []" using assms(2) by simp
  moreover have "NaN \<notin> set (map snd (window lo hi S))" using assms(3) by auto
  ultimately have
    "running_min PInf (map snd (window lo hi S)) \<in> set (map snd (window lo hi S)) \<and>
     (\<forall>y \<in> set (map snd (window lo hi S)). fle (running_min PInf (map snd (window lo hi S))) y)"
    by (rule running_min_PInf)
  then show ?thesis
    by (simp add: derive_peak_loaded k print_baseline_def) (simp add: loaded_def init_def)
qed

theorem baseline_is_window_minimum_witness:
  "\<exists>s1. derive_peak 150 300
          (loaded [(Fin 0, Fin 5), (Fin 180, Fin 10), (Fin 240, Fin 8), (Fin 360, Fin 1)]) = Inr s1 \<and>
      baseline s1 = Fin 8 \<and> stdout (print_baseline s1) = [Baseline_is (Fin 8)]"
proof -
  let ?S = "[(Fin 0, Fin 5), (Fin 180, Fin 10), (Fin 240, Fin 8), (Fin 360, Fin 1)]"
  have w: "window 150 300 ?S = [(Fin 180, Fin 10), (Fin 240, Fin 8)]"
    by (simp add: window_def)
  from baseline_is_window_minimum[of ?S 150 300] obtain s1 where
    "derive_peak 150 300 (loaded ?S) = Inr s1" and
    "baseline s1 \<in> {Fin 10, Fin 8}" and "fle (baseline s1) (Fin 8)" and
    "stdout (print_baseline s1) = [Baseline_is (baseline s1)]"
    unfolding w by auto
  then show ?thesis by auto
qed

text \<open>
  Claim C4 as stated fails on NaN. A Peak Series whose only signal is NaN leaves the
  baseline at \<open>inf\<close>, which is no signal of it; and a sample whose time is NaN is kept, so
  that its signal 1 becomes the baseline although the only sample in the window has the
  signal 5.
\<close>

theorem baseline_counterexample:
  "window 150 300 [(Fin 180, NaN)] = [(Fin 180, NaN)] \<and>
   derive_peak 150 300 (loaded [(Fin 180, NaN)]) =
     Inr ((loaded [(Fin 180, NaN)])\<lparr>peak_x_vals := [Fin 180], baseline := PInf,
            peak_y_vals := [NaN]\<rparr>) \<and>
   window 150 300 [(NaN, Fin 1), (Fin 240, Fin 5)] = [(Fin 240, Fin 5)] \<and>
   derive_peak 150 300 (loaded [(NaN, Fin 1), (Fin 240, Fin 5)]) =
     Inr ((loaded [(NaN, Fin 1), (Fin 240, Fin 5)])\<lparr>peak_x_vals := [NaN, Fin 240],
            baseline := Fin 1, peak_y_vals := [Fin 1, Fin 5]\<rparr>)"
  by (simp add: derive_peak_loaded kept_def window_def)









text \<open>
  Claim C8. On the fixture rows \<^verbatim>\<open>(0,5.0)\<close>, \<^verbatim>\<open>(3,10.0)\<close>, \<^verbatim>\<open>(6,8.0)\<close> and
  the window from 0 s to 360 s, the Peak Series holds the three samples at 0, 180 and
  360 seconds, the baseline is 5, the corrected signals are 0, 5 and 3, and the peak
  area is 1170.
\<close>

theorem fixture_pipeline:
  assumes "float ''0'' = Some (Fin 0)" and "float ''5.0'' = Some (Fin 5)"
    and "float ''3'' = Some (Fin 3)" and "float ''10.0'' = Some (Fin 10)"
    and "float ''6'' = Some (Fin 6)" and "float ''8.0'' = Some (Fin 8)"
  shows "\<exists>s0 s1. read_data float (Some fixture_rows) init = Inr s0 \<and>
           derive_peak 0 360 s0 = Inr s1 \<and>
           peak_x_vals s1 = [Fin 0, Fin 180, Fin 360] \<and>
           peak_y_vals s1 = [Fin 5, Fin 10, Fin 8] \<and>
           baseline s1 = Fin 5 \<and>
           main float 0 360 (Some fixture_rows) =
             Inr \<lparr>baseline = Fin 5,
                  x_vals = [Fin 0, Fin 180, Fin 360], y_vals = [Fin 5, Fin 10, Fin 8],
                  peak_x_vals = [Fin 0, Fin 180, Fin 360], peak_y_vals = [Fin 0, Fin 5, Fin 3],
                  result = Some (Fin 1170),
                  stdout = [Baseline_is (Fin 5), Peak_area (Fin 1170)],
                  plotted = [([Fin 0, Fin 180, Fin 360], [Fin 5, Fin 10, Fin 8])]\<rparr>"
proof -
  let ?S = "[(Fin 0, Fin 5), (Fin 180, Fin 10), (Fin 360, Fin 8)]"
  let ?C = "[(Fin 0, Fin 0), (Fin 180, Fin 5), (Fin 360, Fin 3)]"
  have rd: "read_data float (Some fixture_rows) init = Inr (loaded ?S)"
    by (simp add: read_data_def fixture_rows_def index_def assms loaded_def init_def rnd_int)
  have k: "kept 0 360 ?S = ?S"
    by (simp add: kept_def fgt_def)
  have dp: "derive_peak 0 360 (loaded ?S) =
      Inr ((loaded ?S)\<lparr>peak_x_vals := [Fin 0, Fin 180, Fin 360], baseline := Fin 5,
                       peak_y_vals := [Fin 5, Fin 10, Fin 8]\<rparr>)"
    by (simp add: derive_peak_loaded k)
  have t: "term_fl (Fin 0, Fin 0) (Fin 180, Fin 5) = Fin 450"
          "term_fl (Fin 180, Fin 5) (Fin 360, Fin 3) = Fin 720"
    by (simp_all add: term_fl_def rnd_int)
  have n: "np_sum [Fin 450, Fin 720] = Fin 1170"
    by (simp add: np_sum_short rnd_int)
  have "[0..<length ?C - 1] = [0, 1]" by (simp add: upt_rec)
  then have tr: "trapezoid_fl ?C = Fin 1170"
    by (simp add: trapezoid_fl_def t n)
  have pr: "process 0 360 (loaded ?S) =
      Inr \<lparr>baseline = Fin 5,
           x_vals = [Fin 0, Fin 180, Fin 360], y_vals = [Fin 5, Fin 10, Fin 8],
           peak_x_vals = [Fin 0, Fin 180, Fin 360], peak_y_vals = [Fin 0, Fin 5, Fin 3],
           result = Some (Fin 1170),
           stdout = [Baseline_is (Fin 5), Peak_area (Fin 1170)],
           plotted = [([Fin 0, Fin 180, Fin 360], [Fin 5, Fin 10, Fin 8])]\<rparr>"
    unfolding process_loaded k by (simp add: rnd_int tr) (simp add: loaded_def init_def)
  show ?thesis
    by (simp add: rd dp main_def pr)
qed

theorem fixture_pipeline_witness:
  "\<exists>s0 s1. read_data fixture_float (Some fixture_rows) init = Inr s0 \<and>
           derive_peak 0 360 s0 = Inr s1 \<and>
           peak_x_vals s1 = [Fin 0, Fin 180, Fin 360] \<and>
           peak_y_vals s1 = [Fin 5, Fin 10, Fin 8] \<and>
           baseline s1 = Fin 5 \<and>
           main fixture_float 0 360 (Some fixture_rows) =
             Inr \<lparr>baseline = Fin 5,
                  x_vals = [Fin 0, Fin 180, Fin 360], y_vals = [Fin 5, Fin 10, Fin 8],
                  peak_x_vals = [Fin 0, Fin 180, Fin 360], peak_y_vals = [Fin 0, Fin 5, Fin 3],
                  result = Some (Fin 1170),
                  stdout = [Baseline_is (Fin 5), Peak_area (Fin 1170)],
                  plotted = [([Fin 0, Fin 180, Fin 360], [Fin 5, Fin 10, Fin 8])]\<rparr>"
  by (rule fixture_pipeline) (simp_all add: fixture_float_def)

text \<open>
  Claim C9. The render step plots the full series as it was loaded, and windowing,
  baseline, correction and integration leave the full series unchanged: whatever the
  state \<open>s0\<close> after the load step, a run that ends has plotted \<open>x_vals s0\<close> against
  \<open>y_vals s0\<close>.
\<close>

theorem plot_shows_loaded_series:
  assumes "process lo hi s0 = Inr s"
  shows "x_vals s = x_vals s0 \<and> y_vals s = y_vals s0 \<and>
         plotted s = plotted s0 @ [(x_vals s0, y_vals s0)]"
proof -
  from assms obtain s1 s2 where
    s1: "derive_peak lo hi s0 = Inr s1" and s2: "analyse s1 = Inr s2" and s: "s = plot s2"
    by (auto simp: process_def split: sum.splits)
  have f1: "x_vals s1 = x_vals s0 \<and> y_vals s1 = y_vals s0 \<and> plotted s1 = plotted s0"
    using peak_loop_frame[of lo hi "y_vals s0" "- 1" s0 s1] s1 by (simp add: derive_peak_def)
  have f2: "x_vals s2 = x_vals s1 \<and> y_vals s2 = y_vals s1 \<and> plotted s2 = plotted s1"
    using calc_area_frame[of "apply_correction (print_baseline s1)" s2] s2
    by (simp add: analyse_def apply_correction_def print_baseline_def)
  show ?thesis using f1 f2 by (simp add: s plot_def)
qed

theorem plot_shows_loaded_series_witness:
  "\<exists>s. process 150 300 (loaded [(Fin 0, Fin 5), (Fin 180, Fin 10), (Fin 240, Fin 8)]) = Inr s \<and>
       x_vals s = [Fin 0, Fin 180, Fin 240] \<and> y_vals s = [Fin 5, Fin 10, Fin 8] \<and>
       plotted s = [([Fin 0, Fin 180, Fin 240], [Fin 5, Fin 10, Fin 8])]"
proof -
  obtain s where s: "process 150 300 (loaded [(Fin 0, Fin 5), (Fin 180, Fin 10), (Fin 240, Fin 8)]) = Inr s"
    using process_loaded by blast
  from plot_shows_loaded_series[OF s]
  have "x_vals s = [Fin 0, Fin 180, Fin 240] \<and> y_vals s = [Fin 5, Fin 10, Fin 8] \<and>
       plotted s = [([Fin 0, Fin 180, Fin 240], [Fin 5, Fin 10, Fin 8])]"
    by (simp add: loaded_def init_def)
  with s show ?thesis by blast
qed




end
